theory Spec2Isabelle
  imports Complex_Main "HOL-Library.Word" "HOL-Library.Log_Nat" "HOL-Library.Sublist"
begin

section \<open>Double-precision numbers\<close>

text \<open>
  The order terms \<open>limit_price\<close> and \<open>slippage_tolerance\<close> are C++ \<open>double\<close>s, and
  the fill evaluator converts 64-bit amounts to \<open>double\<close> before it divides, multiplies
  and compares. A \<open>double\<close> is modelled by the number it denotes (a rational), or one of
  the three special values. The two zeros are not told apart: the program only divides by
  a converted nonzero amount, compares with \<open>>=\<close> and converts back to an integer, and
  none of these sees the sign of a zero.

  \<open>rnd\<close> is the rounding every arithmetic operation ends with: to the nearest value with
  a 53-bit significand, ties to the even significand, exponents from -1022 (below that the
  spacing stays that of the subnormal numbers) to 1023 (beyond that the result is an
  infinity).
\<close>

datatype double = DVal rat | DPosInf | DNegInf | DNaN

definition pow2 :: "int \<Rightarrow> rat" where
  "pow2 k = (if 0 \<le> k then 2 ^ nat k else 1 / 2 ^ nat (- k))"

definition ilog2 :: "rat \<Rightarrow> int" where
  "ilog2 a = (let (p, q) = quotient_of a; d = bitlen p - bitlen q
              in if pow2 d \<le> a then d else d - 1)"

definition round_half_even :: "rat \<Rightarrow> int" where
  "round_half_even r =
     (let f = \<lfloor>r\<rfloor>; t = r - of_int f
      in if t < 1 / 2 then f
         else if 1 / 2 < t then f + 1
         else if even f then f else f + 1)"

definition round_mag :: "rat \<Rightarrow> rat" where
  "round_mag a =
     (let e = max (ilog2 a) (- 1022); ulp = pow2 (e - 52)
      in of_int (round_half_even (a / ulp)) * ulp)"

definition rnd :: "rat \<Rightarrow> double" where
  "rnd x =
     (if x = 0 then DVal 0
      else let v = round_mag \<bar>x\<bar>
           in if 2 ^ 1024 \<le> v then (if 0 < x then DPosInf else DNegInf)
              else DVal (if 0 < x then v else - v))"

text \<open>
  The numbers a \<open>double\<close> can hold: a significand below \<open>2^53\<close> in magnitude times
  a power of two between \<open>2^-1074\<close> and \<open>2^971\<close>.
\<close>

definition is_double :: "rat \<Rightarrow> bool" where
  "is_double x = (\<exists>m k. x = of_int m * pow2 k \<and> \<bar>m\<bar> < 2 ^ 53 \<and> - 1074 \<le> k \<and> k \<le> 971)"

text \<open>
  \<open>static_cast<double>(uint64_t)\<close>, also applied implicitly to an integer operand:
  the number the 64 bits denote, rounded.
\<close>

definition u64_val :: "64 word \<Rightarrow> rat" where
  "u64_val w = of_int (uint w)"

definition u64_to_double :: "64 word \<Rightarrow> double" where
  "u64_to_double w = rnd (u64_val w)"

text \<open>
  \<open>static_cast<uint64_t>(double)\<close> truncates toward zero. Where the truncated value does
  not fit (or the operand is not a number) C++ leaves the conversion undefined: \<open>None\<close>.
\<close>

fun double_to_u64 :: "double \<Rightarrow> 64 word option" where
  "double_to_u64 (DVal r) =
     (if - 1 < r \<and> r < 2 ^ 64 then Some (word_of_int (if r < 0 then 0 else \<lfloor>r\<rfloor>)) else None)"
| "double_to_u64 _ = None"

fun fdiv :: "double \<Rightarrow> double \<Rightarrow> double" where
  "fdiv DNaN _ = DNaN"
| "fdiv _ DNaN = DNaN"
| "fdiv (DVal a) (DVal b) =
     (if b = 0 then (if a = 0 then DNaN else if 0 < a then DPosInf else DNegInf)
      else rnd (a / b))"
| "fdiv (DVal a) _ = DVal 0"
| "fdiv DPosInf (DVal b) = (if 0 \<le> b then DPosInf else DNegInf)"
| "fdiv DNegInf (DVal b) = (if 0 \<le> b then DNegInf else DPosInf)"
| "fdiv _ _ = DNaN"

fun fmul :: "double \<Rightarrow> double \<Rightarrow> double" where
  "fmul DNaN _ = DNaN"
| "fmul _ DNaN = DNaN"
| "fmul (DVal a) (DVal b) = rnd (a * b)"
| "fmul (DVal a) DPosInf = (if a = 0 then DNaN else if 0 < a then DPosInf else DNegInf)"
| "fmul (DVal a) DNegInf = (if a = 0 then DNaN else if 0 < a then DNegInf else DPosInf)"
| "fmul DPosInf (DVal b) = (if b = 0 then DNaN else if 0 < b then DPosInf else DNegInf)"
| "fmul DNegInf (DVal b) = (if b = 0 then DNaN else if 0 < b then DNegInf else DPosInf)"
| "fmul DPosInf DPosInf = DPosInf"
| "fmul DNegInf DNegInf = DPosInf"
| "fmul _ _ = DNegInf"

fun fsub :: "double \<Rightarrow> double \<Rightarrow> double" where
  "fsub DNaN _ = DNaN"
| "fsub _ DNaN = DNaN"
| "fsub (DVal a) (DVal b) = rnd (a - b)"
| "fsub (DVal a) DPosInf = DNegInf"
| "fsub (DVal a) DNegInf = DPosInf"
| "fsub DPosInf DPosInf = DNaN"
| "fsub DNegInf DNegInf = DNaN"
| "fsub DPosInf _ = DPosInf"
| "fsub DNegInf _ = DNegInf"

text \<open>\<open>x >= y\<close> on doubles: false as soon as one side is not a number.\<close>

fun fge :: "double \<Rightarrow> double \<Rightarrow> bool" where
  "fge DNaN _ = False"
| "fge _ DNaN = False"
| "fge (DVal a) (DVal b) = (b \<le> a)"
| "fge DPosInf _ = True"
| "fge _ DNegInf = True"
| "fge _ _ = False"

section \<open>Orders (limit\_order.h)\<close>

datatype TimeInForce = GTC | GTT | IOC | FOK

datatype OrderStatus = PENDING | ACTIVE | PARTIALLY_FILLED | FILLED | CANCELED | EXPIRED | FAILED

text \<open>
  \<open>struct LimitOrder\<close>, field by field. Time points are the clock's tick count since the
  epoch (nanoseconds), \<open>uint64_t\<close> is \<open>64 word\<close>, \<open>int32_t\<close> and \<open>int\<close> are \<open>32 word\<close>.
\<close>

record LimitOrder =
  order_id :: string
  created_at :: int
  input_token_address :: string
  output_token_address :: string
  input_amount :: "64 word"
  min_output_amount :: "64 word"
  pool_address :: string
  input_token_index :: "32 word"
  output_token_index :: "32 word"
  limit_price :: double
  slippage_tolerance :: double
  tif_policy :: TimeInForce
  expiry_time :: int
  user_address :: string
  private_key :: string
  status :: OrderStatus
  filled_amount :: "64 word"
  received_amount :: "64 word"
  transaction_hash :: string
  failure_reason :: string
  last_price_check :: int
  last_quoted_output :: "64 word"
  price_check_count :: "32 word"

definition hours :: "int \<Rightarrow> int" where
  "hours n = n * 3600000000000"


text \<open>\<open>isExpired\<close> and \<open>isExecutable\<close> read the clock: \<open>now\<close> is the reading.\<close>

definition isExpired :: "int \<Rightarrow> LimitOrder \<Rightarrow> bool" where
  "isExpired now ord = (if tif_policy ord \<noteq> GTT then False else expiry_time ord \<le> now)"

definition isExecutable :: "int \<Rightarrow> LimitOrder \<Rightarrow> bool" where
  "isExecutable now ord = (status ord = ACTIVE \<and> \<not> isExpired now ord)"

definition getFillPercentage :: "LimitOrder \<Rightarrow> double" where
  "getFillPercentage ord =
     (if input_amount ord = 0 then DVal 0
      else fmul (fdiv (u64_to_double (filled_amount ord)) (u64_to_double (input_amount ord)))
             (DVal 100))"

definition isPriceMet :: "LimitOrder \<Rightarrow> 64 word \<Rightarrow> bool" where
  "isPriceMet ord current_output =
     (if input_amount ord = 0 then False
      else let current_rate = fdiv (u64_to_double current_output) (u64_to_double (input_amount ord))
           in fge current_rate (limit_price ord))"

definition isPriceMetForAmount :: "LimitOrder \<Rightarrow> 64 word \<Rightarrow> 64 word \<Rightarrow> bool" where
  "isPriceMetForAmount ord current_output check_amount =
     (if check_amount = 0 then False
      else let current_rate = fdiv (u64_to_double current_output) (u64_to_double check_amount)
           in fge current_rate (limit_price ord))"

definition getMaxFillableAmount :: "LimitOrder \<Rightarrow> 64 word \<Rightarrow> 64 word" where
  "getMaxFillableAmount ord current_output =
     (if input_amount ord = 0 then 0
      else let remaining_amount = input_amount ord - filled_amount ord
           in if remaining_amount = 0 then 0
              else if isPriceMet ord current_output then remaining_amount
              else 0)"

definition getMinOutputWithSlippage :: "LimitOrder \<Rightarrow> 64 word \<Rightarrow> 64 word option" where
  "getMinOutputWithSlippage ord current_market_output =
     double_to_u64 (fmul (u64_to_double current_market_output)
                      (fsub (DVal 1) (slippage_tolerance ord)))"

definition updateStatus :: "LimitOrder \<Rightarrow> OrderStatus \<Rightarrow> string \<Rightarrow> LimitOrder" where
  "updateStatus ord new_status reason =
     (let ord1 = ord\<lparr>status := new_status\<rparr>
      in if reason \<noteq> [] then ord1\<lparr>failure_reason := reason\<rparr> else ord1)"

definition recordPriceCheck :: "int \<Rightarrow> LimitOrder \<Rightarrow> 64 word \<Rightarrow> LimitOrder" where
  "recordPriceCheck now ord quoted_output =
     ord\<lparr>last_price_check := now,
         last_quoted_output := quoted_output,
         price_check_count := price_check_count ord + 1\<rparr>"

definition setExpiryTime :: "LimitOrder \<Rightarrow> int \<Rightarrow> LimitOrder" where
  "setExpiryTime ord expiry = (if tif_policy ord = GTT then ord\<lparr>expiry_time := expiry\<rparr> else ord)"

section \<open>The engine and its collaborators (curve\_dex\_limit\_order\_agent.cpp)\<close>

text \<open>
  \<open>CurvePool::get_dy\<close> and \<open>CurvePool::executeSwap\<close> talk to the network and
  \<open>system_clock::now()\<close> reads the clock: the order logic cannot see how their answers
  come about. The model takes them as oracles, one answer for each moment of the run:
  \<open>Inl msg\<close> is an exception with \<open>what() = msg\<close>, \<open>Inr\<close> a returned value. Nothing is
  assumed about the oracles (the clock need not even advance). \<open>indeterminate_u64\<close> is
  the value the machine leaves behind where a conversion to \<open>uint64_t\<close> is undefined.
\<close>

record env =
  get_dy_oracle :: "nat \<Rightarrow> string \<Rightarrow> 32 word \<Rightarrow> 32 word \<Rightarrow> 64 word \<Rightarrow> string + 64 word"
  executeSwap_oracle ::
    "nat \<Rightarrow> string \<Rightarrow> 32 word \<Rightarrow> 32 word \<Rightarrow> 64 word \<Rightarrow> 64 word \<Rightarrow> string + string"
  now_oracle :: "nat \<Rightarrow> int"
  skip_liquidity_check :: bool
  indeterminate_u64 :: "double \<Rightarrow> 64 word"

text \<open>
  The state of the world outside the orders: the moment reached (\<open>tick\<close>, advanced by
  every call that leaves the order logic) and the settlements submitted so far, in order:
  pool, the two token indices, the input amount and the minimum output.
\<close>

type_synonym swap_call = "string \<times> 32 word \<times> 32 word \<times> 64 word \<times> 64 word"

record world =
  tick :: nat
  swaps :: "swap_call list"

definition clock_now :: "env \<Rightarrow> world \<Rightarrow> int \<times> world" where
  "clock_now ev w = (now_oracle ev (tick w), w\<lparr>tick := Suc (tick w)\<rparr>)"

definition sleep_for :: "world \<Rightarrow> world" where
  "sleep_for w = w\<lparr>tick := Suc (tick w)\<rparr>"

definition get_dy ::
  "env \<Rightarrow> world \<Rightarrow> string \<Rightarrow> 32 word \<Rightarrow> 32 word \<Rightarrow> 64 word \<Rightarrow> (string + 64 word) \<times> world" where
  "get_dy ev w pool i j dx = (get_dy_oracle ev (tick w) pool i j dx, w\<lparr>tick := Suc (tick w)\<rparr>)"

definition executeSwap ::
  "env \<Rightarrow> world \<Rightarrow> string \<Rightarrow> 32 word \<Rightarrow> 32 word \<Rightarrow> 64 word \<Rightarrow> 64 word \<Rightarrow> (string + string) \<times> world" where
  "executeSwap ev w pool i j dx min_dy =
     (executeSwap_oracle ev (tick w) pool i j dx min_dy,
      w\<lparr>tick := Suc (tick w), swaps := swaps w @ [(pool, i, j, dx, min_dy)]\<rparr>)"

text \<open>A conversion to \<open>uint64_t\<close> inside the engine, whose result is used whatever it is.\<close>

definition cast_u64 :: "env \<Rightarrow> double \<Rightarrow> 64 word" where
  "cast_u64 ev d = (case double_to_u64 d of Some v \<Rightarrow> v | None \<Rightarrow> indeterminate_u64 ev d)"

definition minOutputWithSlippage :: "env \<Rightarrow> LimitOrder \<Rightarrow> 64 word \<Rightarrow> 64 word" where
  "minOutputWithSlippage ev ord q =
     (case getMinOutputWithSlippage ord q of
        Some v \<Rightarrow> v
      | None \<Rightarrow> indeterminate_u64 ev (fmul (u64_to_double q) (fsub (DVal 1) (slippage_tolerance ord))))"

text \<open>\<open>class LimitOrderEngine\<close>: the orders it owns, in the order of their admission.\<close>

record LimitOrderEngine =
  active_orders :: "LimitOrder list"

definition addOrder :: "LimitOrderEngine \<Rightarrow> LimitOrder \<Rightarrow> LimitOrderEngine" where
  "addOrder eng ord =
     (let ord1 = updateStatus ord ACTIVE []
      in eng\<lparr>active_orders := active_orders eng @ [ord1]\<rparr>)"

text \<open>\<open>recordPriceCheck\<close> with the reading of the clock it takes.\<close>

definition recordQuote :: "env \<Rightarrow> world \<Rightarrow> LimitOrder \<Rightarrow> 64 word \<Rightarrow> LimitOrder \<times> world" where
  "recordQuote ev w ord q = (let (t, w1) = clock_now ev w in (recordPriceCheck t ord q, w1))"

text \<open>
  \<open>executeGTC\<close>. The \<open>while\<close> loop can run forever (an exception leaves
  \<open>check_count\<close> as it is), so the loop takes fuel, one unit for each evaluation of the
  loop condition; \<open>None\<close> is "still running when the fuel ran out".
\<close>

fun executeGTC_loop ::
  "nat \<Rightarrow> env \<Rightarrow> world \<Rightarrow> LimitOrder \<Rightarrow> nat \<Rightarrow> (world \<times> LimitOrder) option" where
  "executeGTC_loop 0 ev w ord check_count = None"
| "executeGTC_loop (Suc fuel) ev w ord check_count =
     (let (t, w0) = clock_now ev w in
      if isExecutable t ord \<and> check_count < 10 then
        (case get_dy ev w0 (pool_address ord) (input_token_index ord) (output_token_index ord)
                (input_amount ord) of
           (Inl e, w1) \<Rightarrow> executeGTC_loop fuel ev (sleep_for w1) ord check_count
         | (Inr current_output, w1) \<Rightarrow>
             let (ord1, w2) = recordQuote ev w1 ord current_output in
             if isPriceMet ord1 current_output then
               (let min_output = minOutputWithSlippage ev ord1 current_output in
                case executeSwap ev w2 (pool_address ord1) (input_token_index ord1)
                       (output_token_index ord1) (input_amount ord1) min_output of
                  (Inl e, w3) \<Rightarrow> executeGTC_loop fuel ev (sleep_for w3) ord1 check_count
                | (Inr tx_hash, w3) \<Rightarrow>
                    Some (w3, updateStatus
                                (ord1\<lparr>transaction_hash := tx_hash,
                                      filled_amount := input_amount ord1,
                                      received_amount := current_output\<rparr>)
                                FILLED []))
             else executeGTC_loop fuel ev (sleep_for w2) ord1 (check_count + 1))
      else
        Some (w0, if 10 \<le> check_count then updateStatus ord CANCELED ''Demo limit reached''
                  else ord))"

definition executeGTC :: "nat \<Rightarrow> env \<Rightarrow> world \<Rightarrow> LimitOrder \<Rightarrow> (world \<times> LimitOrder) option" where
  "executeGTC fuel ev w ord = executeGTC_loop fuel ev w ord 0"

text \<open>
  \<open>executeGTT\<close>. The loop condition reads the clock twice (\<open>isExecutable()\<close>, then
  \<open>isExpired()\<close>), and the test after the loop reads it once more. Unlike
  \<open>executeGTC\<close>, the fill does not assign \<open>received_amount\<close>, and an exception is
  followed by no pause.
\<close>

fun executeGTT_loop ::
  "nat \<Rightarrow> env \<Rightarrow> world \<Rightarrow> LimitOrder \<Rightarrow> (world \<times> LimitOrder) option" where
  "executeGTT_loop 0 ev w ord = None"
| "executeGTT_loop (Suc fuel) ev w ord =
     (let (t, w0) = clock_now ev w; (t', w0') = clock_now ev w0 in
      if isExecutable t ord \<and> \<not> isExpired t' ord then
        (case get_dy ev w0' (pool_address ord) (input_token_index ord) (output_token_index ord)
                (input_amount ord) of
           (Inl e, w1) \<Rightarrow> executeGTT_loop fuel ev w1 ord
         | (Inr current_output, w1) \<Rightarrow>
             let (ord1, w2) = recordQuote ev w1 ord current_output in
             if isPriceMet ord1 current_output then
               (let min_output = minOutputWithSlippage ev ord1 current_output in
                case executeSwap ev w2 (pool_address ord1) (input_token_index ord1)
                       (output_token_index ord1) (input_amount ord1) min_output of
                  (Inl e, w3) \<Rightarrow> executeGTT_loop fuel ev w3 ord1
                | (Inr tx_hash, w3) \<Rightarrow>
                    Some (w3, updateStatus
                                (ord1\<lparr>transaction_hash := tx_hash,
                                      filled_amount := input_amount ord1\<rparr>)
                                FILLED []))
             else executeGTT_loop fuel ev (sleep_for w2) ord1)
      else
        (let (t'', w1) = clock_now ev w0' in
         Some (w1, if isExpired t'' ord then updateStatus ord EXPIRED ''Order expired'' else ord)))"

definition executeGTT :: "nat \<Rightarrow> env \<Rightarrow> world \<Rightarrow> LimitOrder \<Rightarrow> (world \<times> LimitOrder) option" where
  "executeGTT fuel ev w ord = executeGTT_loop fuel ev w ord"

text \<open>
  \<open>executeIOC\<close>: one quote, one decision; any exception ends in \<open>FAILED\<close>. The
  lines that only print (among them the expected output shown for debugging) are left out,
  here as in the other strategies.
\<close>

definition executeIOC :: "env \<Rightarrow> world \<Rightarrow> LimitOrder \<Rightarrow> world \<times> LimitOrder" where
  "executeIOC ev w ord =
     (case get_dy ev w (pool_address ord) (input_token_index ord) (output_token_index ord)
             (input_amount ord) of
        (Inl e, w1) \<Rightarrow> (w1, updateStatus ord FAILED e)
      | (Inr current_output, w1) \<Rightarrow>
          let (ord1, w2) = recordQuote ev w1 ord current_output in
          if isPriceMet ord1 current_output then
            (let min_output = minOutputWithSlippage ev ord1 current_output in
             case executeSwap ev w2 (pool_address ord1) (input_token_index ord1)
                    (output_token_index ord1) (input_amount ord1) min_output of
               (Inl e, w3) \<Rightarrow> (w3, updateStatus ord1 FAILED e)
             | (Inr tx_hash, w3) \<Rightarrow>
                 (w3, updateStatus
                        (ord1\<lparr>transaction_hash := tx_hash,
                              filled_amount := input_amount ord1,
                              received_amount := current_output\<rparr>)
                        FILLED []))
          else
            (let max_fillable = getMaxFillableAmount ord1 current_output in
             if 0 < max_fillable then
               (case get_dy ev w2 (pool_address ord1) (input_token_index ord1)
                       (output_token_index ord1) max_fillable of
                  (Inl e, w3) \<Rightarrow> (w3, updateStatus ord1 FAILED e)
                | (Inr partial_output, w3) \<Rightarrow>
                    let min_partial_output = minOutputWithSlippage ev ord1 partial_output in
                    (case executeSwap ev w3 (pool_address ord1) (input_token_index ord1)
                            (output_token_index ord1) max_fillable min_partial_output of
                       (Inl e, w4) \<Rightarrow> (w4, updateStatus ord1 FAILED e)
                     | (Inr tx_hash, w4) \<Rightarrow>
                         (w4, updateStatus
                                (ord1\<lparr>transaction_hash := tx_hash,
                                      filled_amount := max_fillable,
                                      received_amount := partial_output\<rparr>)
                                PARTIALLY_FILLED ''Partial fill executed'')))
             else (w2, updateStatus ord1 CANCELED ''Price not met for any execution'')))"

text \<open>
  \<open>executeFOK\<close>: the price check, the optional liquidity probe (an exception of the
  probe is swallowed), then the swap of the full amount.
\<close>

definition fok_fill :: "env \<Rightarrow> world \<Rightarrow> LimitOrder \<Rightarrow> 64 word \<Rightarrow> world \<times> LimitOrder" where
  "fok_fill ev w ord current_output =
     (let min_output = minOutputWithSlippage ev ord current_output in
      case executeSwap ev w (pool_address ord) (input_token_index ord)
             (output_token_index ord) (input_amount ord) min_output of
        (Inl e, w1) \<Rightarrow> (w1, updateStatus ord FAILED e)
      | (Inr tx_hash, w1) \<Rightarrow>
          (w1, updateStatus
                 (ord\<lparr>transaction_hash := tx_hash,
                      filled_amount := input_amount ord,
                      received_amount := current_output\<rparr>)
                 FILLED []))"

definition executeFOK :: "env \<Rightarrow> world \<Rightarrow> LimitOrder \<Rightarrow> world \<times> LimitOrder" where
  "executeFOK ev w ord =
     (case get_dy ev w (pool_address ord) (input_token_index ord) (output_token_index ord)
             (input_amount ord) of
        (Inl e, w1) \<Rightarrow> (w1, updateStatus ord FAILED e)
      | (Inr current_output, w1) \<Rightarrow>
          let (ord1, w2) = recordQuote ev w1 ord current_output in
          if \<not> isPriceMet ord1 current_output then
            (w2, updateStatus ord1 CANCELED ''FOK: Price not met, order killed'')
          else if \<not> skip_liquidity_check ev then
            (let test_amount = cast_u64 ev (fmul (u64_to_double (input_amount ord1)) (rnd (101 / 100))) in
             case get_dy ev w2 (pool_address ord1) (input_token_index ord1)
                    (output_token_index ord1) test_amount of
               (Inl e, w3) \<Rightarrow> fok_fill ev w3 ord1 current_output
             | (Inr test_output, w3) \<Rightarrow>
                 if 0 < test_output then fok_fill ev w3 ord1 current_output
                 else (w3, updateStatus ord1 CANCELED ''FOK: Insufficient liquidity for full order''))
          else fok_fill ev w2 ord1 current_output)"

text \<open>
  \<open>processOrders\<close>: each order that is still executable goes to the strategy of its
  policy; the others are skipped.
\<close>

definition processOrder :: "nat \<Rightarrow> env \<Rightarrow> world \<Rightarrow> LimitOrder \<Rightarrow> (world \<times> LimitOrder) option" where
  "processOrder fuel ev w ord =
     (let (t, w0) = clock_now ev w in
      if \<not> isExecutable t ord then Some (w0, ord)
      else (case tif_policy ord of
              GTC \<Rightarrow> executeGTC fuel ev w0 ord
            | GTT \<Rightarrow> executeGTT fuel ev w0 ord
            | IOC \<Rightarrow> Some (executeIOC ev w0 ord)
            | FOK \<Rightarrow> Some (executeFOK ev w0 ord)))"

fun processList ::
  "nat \<Rightarrow> env \<Rightarrow> world \<Rightarrow> LimitOrder list \<Rightarrow> (world \<times> LimitOrder list) option" where
  "processList fuel ev w [] = Some (w, [])"
| "processList fuel ev w (ord # rest) =
     (case processOrder fuel ev w ord of
        None \<Rightarrow> None
      | Some (w1, ord1) \<Rightarrow>
          (case processList fuel ev w1 rest of
             None \<Rightarrow> None
           | Some (w2, rest1) \<Rightarrow> Some (w2, ord1 # rest1)))"

definition processOrders ::
  "nat \<Rightarrow> env \<Rightarrow> world \<Rightarrow> LimitOrderEngine \<Rightarrow> (world \<times> LimitOrderEngine) option" where
  "processOrders fuel ev w eng =
     (case processList fuel ev w (active_orders eng) of
        None \<Rightarrow> None
      | Some (w1, os) \<Rightarrow> Some (w1, eng\<lparr>active_orders := os\<rparr>))"

section \<open>Sample data\<close>

text \<open>
  The order of the unit test \<open>test_price_validation\<close> (1000000 units at a limit price
  of 1.02 with 1 percent slippage) once admitted, an environment in which every quote is
  \<open>q\<close>, every settlement succeeds with the mock transaction hash and the clock stands at
  the epoch, and the world before anything has happened.
\<close>

definition sample_order :: "TimeInForce \<Rightarrow> LimitOrder" where
  "sample_order tif =
     \<lparr> order_id = ''PRICE_TEST'', created_at = 0, input_token_address = ''0xA'',
       output_token_address = ''0xB'', input_amount = 1000000, min_output_amount = 1020000,
       pool_address = [], input_token_index = 0, output_token_index = 1,
       limit_price = rnd (102 / 100), slippage_tolerance = rnd (1 / 100), tif_policy = tif,
       expiry_time = (if tif = GTT then hours 1 else 0), user_address = ''0xUser'',
       private_key = ''key'', status = ACTIVE, filled_amount = 0, received_amount = 0,
       transaction_hash = [], failure_reason = [], last_price_check = 0,
       last_quoted_output = 0, price_check_count = 0 \<rparr>"

definition quote_env :: "64 word \<Rightarrow> env" where
  "quote_env q =
     \<lparr> get_dy_oracle = (\<lambda>_ _ _ _ _. Inr q),
       executeSwap_oracle = (\<lambda>_ _ _ _ _ _. Inr (''0x'' @ replicate 64 CHR ''f'')),
       now_oracle = (\<lambda>_. 0),
       skip_liquidity_check = False,
       indeterminate_u64 = (\<lambda>_. 0) \<rparr>"

definition start_world :: world where
  "start_world = \<lparr> tick = 0, swaps = [] \<rparr>"

text \<open>The statuses the lifecycle ends in.\<close>

definition terminal :: "OrderStatus \<Rightarrow> bool" where
  "terminal s = (s = FILLED \<or> s = PARTIALLY_FILLED \<or> s = CANCELED \<or> s = EXPIRED \<or> s = FAILED)"

section \<open>Properties of the rounding\<close>

text \<open>
  Powers of two, the position of the leading bit, and the two facts about \<open>rnd\<close> that
  the claims rest on: a number a \<open>double\<close> can hold is left as it is, and rounding
  keeps the order.
\<close>

lemma pow2_powi: "pow2 k = power_int 2 k"
  by (simp add: pow2_def power_int_def power_inverse [symmetric] inverse_eq_divide power_one_over)

lemma pow2_pos [simp]: "0 < pow2 k"
  by (simp add: pow2_powi)

lemma pow2_neq0 [simp]: "pow2 k \<noteq> 0"
proof
  assume "pow2 k = 0"
  with pow2_pos [of k] show False by simp
qed

lemma pow2_add: "pow2 (a + b) = pow2 a * pow2 b"
  by (simp add: pow2_powi power_int_add)

lemma pow2_diff: "pow2 (a - b) = pow2 a / pow2 b"
  by (simp add: pow2_powi power_int_diff)

lemma pow2_mono: "a \<le> b \<Longrightarrow> pow2 a \<le> pow2 b"
  by (simp add: pow2_powi power_int_increasing)

lemma pow2_less_cancel: "pow2 a < pow2 b \<Longrightarrow> a < b"
  using pow2_mono [of b a] by (cases "a < b") auto

lemma pow2_nonneg_exp: "0 \<le> k \<Longrightarrow> pow2 k = of_int (2 ^ nat k)"
  by (simp add: pow2_def)

lemma ilog2_bounds:
  assumes "0 < a"
  shows "pow2 (ilog2 a) \<le> a \<and> a < pow2 (ilog2 a + 1)"
proof -
  obtain p q where pq: "quotient_of a = (p, q)"
    by (cases "quotient_of a")
  have q: "0 < q" using pq by (rule quotient_of_denom_pos)
  have a: "a = of_int p / of_int q" using pq by (rule quotient_of_div)
  have p: "0 < p"
    using assms q by (simp add: a zero_less_divide_iff)
  define d where "d = bitlen p - bitlen q"
  have bp: "2 ^ nat (bitlen p - 1) \<le> p" "p < 2 ^ nat (bitlen p)"
    using bitlen_bounds [OF p] by auto
  have bq: "2 ^ nat (bitlen q - 1) \<le> q" "q < 2 ^ nat (bitlen q)"
    using bitlen_bounds [OF q] by auto
  have bpos: "1 \<le> bitlen p" "1 \<le> bitlen q"
    using p q bitlen_eq_zero_iff [of p] bitlen_eq_zero_iff [of q] bitlen_nonneg [of p] bitlen_nonneg [of q]
    by linarith+
  have P1: "pow2 (bitlen p - 1) \<le> of_int p"
    using bp(1) bpos by (simp add: pow2_nonneg_exp)
  have P2: "of_int p < pow2 (bitlen p)"
    using bp(2) bpos by (simp add: pow2_nonneg_exp)
  have Q1: "pow2 (bitlen q - 1) \<le> of_int q"
    using bq(1) bpos by (simp add: pow2_nonneg_exp)
  have Q2: "of_int q < pow2 (bitlen q)"
    using bq(2) bpos by (simp add: pow2_nonneg_exp)
  have qr: "(0::rat) < of_int q" using q by simp
  have upper: "a < pow2 (d + 1)"
  proof -
    have "of_int p < pow2 (d + 1) * pow2 (bitlen q - 1)"
      using P2 by (simp add: pow2_add [symmetric] d_def)
    also have "\<dots> \<le> pow2 (d + 1) * of_int q"
      using Q1 by (simp add: mult_left_mono)
    finally show ?thesis
      using qr by (simp add: a pos_divide_less_eq)
  qed
  have lower: "pow2 (d - 1) < a"
  proof -
    have "pow2 (d - 1) * of_int q < pow2 (d - 1) * pow2 (bitlen q)"
      using Q2 by (simp add: mult_strict_left_mono)
    also have "\<dots> = pow2 (bitlen p - 1)"
      by (simp add: pow2_add [symmetric] d_def)
    also have "\<dots> \<le> of_int p" by (rule P1)
    finally show ?thesis
      using qr by (simp add: a pos_less_divide_eq)
  qed
  show ?thesis
  proof (cases "pow2 d \<le> a")
    case True
    then have "ilog2 a = d" by (simp add: ilog2_def pq d_def)
    with True upper show ?thesis by simp
  next
    case False
    then have "ilog2 a = d - 1" by (simp add: ilog2_def pq d_def)
    with False lower show ?thesis by simp
  qed
qed

lemma round_half_even_ge: "of_int n \<le> r \<Longrightarrow> n \<le> round_half_even r"
proof -
  assume "of_int n \<le> r"
  then have "n \<le> \<lfloor>r\<rfloor>" by (simp add: le_floor_iff)
  moreover have "\<lfloor>r\<rfloor> \<le> round_half_even r"
    by (simp add: round_half_even_def Let_def)
  ultimately show ?thesis by simp
qed

lemma round_half_even_of_int [simp]: "round_half_even (of_int n) = n"
  by (simp add: round_half_even_def)


lemma on_grid:
  assumes L: "L = of_int m * pow2 k" and m: "0 < m" "m < 2 ^ 53" and k: "e - 52 \<le> k"
  shows "L / pow2 (e - 52) = of_int (m * 2 ^ nat (k - (e - 52)))"
proof -
  have "pow2 k = pow2 (k - (e - 52)) * pow2 (e - 52)"
    by (simp add: pow2_add [symmetric])
  moreover have "pow2 (k - (e - 52)) = of_int (2 ^ nat (k - (e - 52)))"
    using k by (simp add: pow2_nonneg_exp)
  ultimately show ?thesis
    using pow2_pos [of "e - 52"] by (simp add: L)
qed

lemma exponent_ge:
  assumes L: "L = of_int m * pow2 k" and m: "0 < m" "m < 2 ^ 53" and e: "pow2 e \<le> L"
  shows "e - 52 \<le> k"
proof -
  have "of_int m < (pow2 53 :: rat)"
    using m(2) by (simp add: pow2_def)
  then have "L < pow2 53 * pow2 k"
    by (simp add: L)
  then have "pow2 e < pow2 (53 + k)"
    using e by (simp add: pow2_add)
  then have "e < 53 + k"
    by (rule pow2_less_cancel)
  then show ?thesis by simp
qed

lemma round_mag_grid:
  assumes "0 < a"
  shows "pow2 (max (ilog2 a) (- 1022)) \<le> a \<or> max (ilog2 a) (- 1022) = - 1022"
  using ilog2_bounds [OF assms] by (auto simp add: max_def)

lemma pos_double_on_grid:
  assumes pos: "0 < L" and dbl: "is_double L" and le: "L \<le> a"
    and big: "pow2 (max (ilog2 a) (- 1022)) \<le> L"
  shows "\<exists>n. L / pow2 (max (ilog2 a) (- 1022) - 52) = of_int n"
proof -
  obtain m k where mk: "L = of_int m * pow2 k" "\<bar>m\<bar> < 2 ^ 53" "- 1074 \<le> k"
    using dbl by (auto simp add: is_double_def)
  have m: "0 < m"
    using pos mk(1) pow2_pos [of k] by (simp add: zero_less_mult_iff)
  then have m2: "m < 2 ^ 53" using mk(2) by simp
  have "max (ilog2 a) (- 1022) - 52 \<le> k"
    using exponent_ge [OF mk(1) m m2 big] .
  from on_grid [OF mk(1) m m2 this] show ?thesis by blast
qed

lemma subnormal_on_grid:
  assumes pos: "0 < L" and dbl: "is_double L"
  shows "\<exists>n. L / pow2 (- 1022 - 52) = of_int n"
proof -
  obtain m k where mk: "L = of_int m * pow2 k" "\<bar>m\<bar> < 2 ^ 53" "- 1074 \<le> k"
    using dbl by (auto simp add: is_double_def)
  have m: "0 < m"
    using pos mk(1) pow2_pos [of k] by (simp add: zero_less_mult_iff)
  then have m2: "m < 2 ^ 53" using mk(2) by simp
  have "- 1022 - 52 \<le> k" using mk(3) by simp
  from on_grid [OF mk(1) m m2 this] show ?thesis by blast
qed

lemma round_mag_exact:
  assumes pos: "0 < x" and dbl: "is_double x"
  shows "round_mag x = x"
proof -
  define e where "e = max (ilog2 x) (- 1022)"
  have "\<exists>n. x / pow2 (e - 52) = of_int n"
  proof (cases "pow2 e \<le> x")
    case True
    then show ?thesis
      using pos_double_on_grid [OF pos dbl order_refl] by (simp add: e_def)
  next
    case False
    then have "e = - 1022"
      using round_mag_grid [OF pos] by (simp add: e_def)
    then show ?thesis
      using subnormal_on_grid [OF pos dbl] by simp
  qed
  then obtain n where n: "x / pow2 (e - 52) = of_int n" ..
  have "round_mag x = of_int n * pow2 (e - 52)"
    by (simp add: round_mag_def Let_def e_def [symmetric] n)
  also have "\<dots> = x"
    using n pow2_pos [of "e - 52"] by (simp add: field_simps)
  finally show ?thesis .
qed

lemma is_double_bound:
  assumes "is_double x"
  shows "\<bar>x\<bar> < 2 ^ 1024"
proof -
  obtain m k where mk: "x = of_int m * pow2 k" "\<bar>m\<bar> < 2 ^ 53" "k \<le> 971"
    using assms by (auto simp add: is_double_def)
  have "\<bar>x\<bar> = of_int \<bar>m\<bar> * pow2 k"
    using pow2_pos [of k] by (simp add: mk(1) abs_mult abs_of_pos)
  also have "\<dots> \<le> of_int \<bar>m\<bar> * pow2 971"
    using pow2_mono [OF mk(3)] by (simp add: mult_left_mono)
  also have "\<dots> < pow2 53 * pow2 971"
  proof -
    have "(of_int \<bar>m\<bar> :: rat) < pow2 53"
      using mk(2) by (simp add: pow2_def)
    then show ?thesis by (simp add: mult_strict_right_mono)
  qed
  also have "\<dots> = 2 ^ 1024"
    by (simp add: pow2_add [symmetric]) (simp add: pow2_def)
  finally show ?thesis .
qed

lemma is_double_minus: "is_double x \<Longrightarrow> is_double (- x)"
proof -
  assume "is_double x"
  then obtain m k where mk: "x = of_int m * pow2 k" "\<bar>m\<bar> < 2 ^ 53" "- 1074 \<le> k" "k \<le> 971"
    by (auto simp add: is_double_def)
  have "- x = of_int (- m) * pow2 k" "\<bar>- m\<bar> < 2 ^ 53"
    using mk by simp_all
  then show ?thesis
    using mk(3,4) unfolding is_double_def by blast
qed

lemma rnd_exact:
  assumes "is_double x"
  shows "rnd x = DVal x"
proof -
  consider "x = 0" | "0 < x" | "x < 0" by linarith
  then show ?thesis
  proof cases
    case 1
    then show ?thesis by (simp add: rnd_def)
  next
    case 2
    then show ?thesis
      using round_mag_exact [OF 2 assms] is_double_bound [OF assms]
      by (simp add: rnd_def Let_def)
  next
    case 3
    then have p: "0 < - x" by simp
    have "round_mag \<bar>x\<bar> = - x"
      using round_mag_exact [OF p is_double_minus [OF assms]] 3 by simp
    then show ?thesis
      using 3 is_double_bound [OF assms] by (simp add: rnd_def Let_def)
  qed
qed

lemma round_half_even_le: "r \<le> of_int n \<Longrightarrow> round_half_even r \<le> n"
proof (cases "r = of_int n")
  case True
  then show ?thesis by simp
next
  case False
  assume "r \<le> of_int n"
  with False have "r < of_int n" by simp
  then have "\<lfloor>r\<rfloor> < n" by (simp add: floor_less_iff)
  moreover have "round_half_even r \<le> \<lfloor>r\<rfloor> + 1"
    by (simp add: round_half_even_def Let_def)
  ultimately show ?thesis by simp
qed

lemma round_half_even_mono:
  assumes "r \<le> s"
  shows "round_half_even r \<le> round_half_even s"
proof (cases "\<lfloor>r\<rfloor> = \<lfloor>s\<rfloor>")
  case True
  then show ?thesis
    using assms by (auto simp add: round_half_even_def Let_def)
next
  case False
  then have "\<lfloor>r\<rfloor> < \<lfloor>s\<rfloor>"
    using floor_mono [OF assms] by simp
  moreover have "round_half_even r \<le> \<lfloor>r\<rfloor> + 1" "\<lfloor>s\<rfloor> \<le> round_half_even s"
    by (simp_all add: round_half_even_def Let_def)
  ultimately show ?thesis by simp
qed

lemma ilog2_mono:
  assumes "0 < x" "x \<le> y"
  shows "ilog2 x \<le> ilog2 y"
proof -
  have "0 < y" using assms by simp
  have "pow2 (ilog2 x) \<le> x" using ilog2_bounds [OF assms(1)] by simp
  also have "x \<le> y" by fact
  also have "y < pow2 (ilog2 y + 1)" using ilog2_bounds [OF \<open>0 < y\<close>] by simp
  finally have "ilog2 x < ilog2 y + 1" by (rule pow2_less_cancel)
  then show ?thesis by simp
qed

lemma round_mag_lower:
  assumes a: "0 < a" and e: "pow2 (max (ilog2 a) (- 1022)) \<le> a"
  shows "pow2 (max (ilog2 a) (- 1022)) \<le> round_mag a"
proof -
  define e where "e = max (ilog2 a) (- 1022)"
  define u where "u = pow2 (e - 52)"
  have u: "0 < u" by (simp add: u_def)
  have eu: "pow2 e = of_int (2 ^ 52) * u"
    by (simp add: u_def pow2_diff) (simp add: pow2_def)
  have "pow2 e / u \<le> a / u"
    using assms(2) less_imp_le [OF u] unfolding e_def [symmetric] by (rule divide_right_mono)
  then have "of_int (2 ^ 52) \<le> a / u"
    using u by (simp add: eu)
  then have "2 ^ 52 \<le> round_half_even (a / u)" by (rule round_half_even_ge)
  then have "(of_int (2 ^ 52) :: rat) \<le> of_int (round_half_even (a / u))"
    by (simp only: of_int_le_iff)
  then have "of_int (2 ^ 52) * u \<le> of_int (round_half_even (a / u)) * u"
    using u by (simp only: mult_le_cancel_right_pos)
  then show ?thesis
    by (simp add: round_mag_def Let_def e_def [symmetric] u_def [symmetric] eu)
qed

lemma round_mag_upper:
  assumes a: "0 < a"
  shows "round_mag a \<le> pow2 (max (ilog2 a) (- 1022) + 1)"
proof -
  define e where "e = max (ilog2 a) (- 1022)"
  define u where "u = pow2 (e - 52)"
  have u: "0 < u" by (simp add: u_def)
  have eu: "pow2 (e + 1) = of_int (2 ^ 53) * u"
    by (simp add: u_def pow2_diff pow2_add) (simp add: pow2_def)
  have "a < pow2 (ilog2 a + 1)" using ilog2_bounds [OF a] by simp
  also have "\<dots> \<le> pow2 (e + 1)" by (rule pow2_mono) (simp add: e_def)
  finally have "a / u \<le> pow2 (e + 1) / u"
    using less_imp_le [OF u] by (simp add: divide_right_mono)
  then have "a / u \<le> of_int (2 ^ 53)"
    using u by (simp add: eu)
  then have "round_half_even (a / u) \<le> 2 ^ 53" by (rule round_half_even_le)
  then have "(of_int (round_half_even (a / u)) :: rat) \<le> of_int (2 ^ 53)"
    by (simp only: of_int_le_iff)
  then have "of_int (round_half_even (a / u)) * u \<le> of_int (2 ^ 53) * u"
    using u by (simp only: mult_le_cancel_right_pos)
  then show ?thesis
    by (simp add: round_mag_def Let_def e_def [symmetric] u_def [symmetric] eu)
qed

lemma round_mag_nonneg: "0 < a \<Longrightarrow> 0 \<le> round_mag a"
proof -
  assume a: "0 < a"
  define u where "u = pow2 (max (ilog2 a) (- 1022) - 52)"
  have u: "0 < u" by (simp add: u_def)
  have "(of_int 0 :: rat) \<le> a / u" using a u by simp
  then have "0 \<le> round_half_even (a / u)" by (rule round_half_even_ge)
  then show ?thesis
    using u by (simp add: round_mag_def Let_def u_def [symmetric])
qed

lemma round_mag_mono:
  assumes x: "0 < x" and xy: "x \<le> y"
  shows "round_mag x \<le> round_mag y"
proof -
  have y: "0 < y" using x xy by simp
  define ex where "ex = max (ilog2 x) (- 1022)"
  define ey where "ey = max (ilog2 y) (- 1022)"
  have exy: "ex \<le> ey"
    using ilog2_mono [OF x xy] by (simp add: ex_def ey_def)
  show ?thesis
  proof (cases "ex = ey")
    case True
    define u where "u = pow2 (ex - 52)"
    have u: "0 < u" by (simp add: u_def)
    have "x / u \<le> y / u"
      using xy less_imp_le [OF u] by (rule divide_right_mono)
    then have "round_half_even (x / u) \<le> round_half_even (y / u)"
      by (rule round_half_even_mono)
    then have "(of_int (round_half_even (x / u)) :: rat) \<le> of_int (round_half_even (y / u))"
      by (simp only: of_int_le_iff)
    then have "of_int (round_half_even (x / u)) * u \<le> of_int (round_half_even (y / u)) * u"
      using u by (simp only: mult_le_cancel_right_pos)
    then show ?thesis
      using True by (simp add: round_mag_def Let_def ex_def [symmetric] ey_def [symmetric] u_def)
  next
    case False
    then have lt: "ex < ey" using exy by simp
    then have "ey = ilog2 y" by (auto simp add: ex_def ey_def max_def split: if_splits)
    then have "pow2 ey \<le> y" using ilog2_bounds [OF y] by simp
    then have low: "pow2 ey \<le> round_mag y"
      using round_mag_lower [OF y] by (simp add: ey_def)
    have "round_mag x \<le> pow2 (ex + 1)"
      using round_mag_upper [OF x] by (simp add: ex_def)
    also have "\<dots> \<le> pow2 ey"
      using lt by (intro pow2_mono) simp
    finally show ?thesis using low by simp
  qed
qed

lemma rnd_mono:
  assumes "x \<le> y"
  shows "fge (rnd y) (rnd x)"
proof -
  consider "0 < x" | "x \<le> 0" "0 \<le> y" | "y < 0" using assms by linarith
  then show ?thesis
  proof cases
    case 1
    then have y: "0 < y" using assms by simp
    show ?thesis
      using round_mag_mono [OF 1 assms] 1 y
      by (simp add: rnd_def Let_def abs_of_pos)
  next
    case 2
    have a: "0 \<le> round_mag \<bar>y\<bar>" if "0 < y"
      using round_mag_nonneg [of "\<bar>y\<bar>"] that by simp
    have b: "0 \<le> round_mag \<bar>x\<bar>" if "x < 0"
      using round_mag_nonneg [of "\<bar>x\<bar>"] that by simp
    show ?thesis
      using 2 a b by (auto simp add: rnd_def Let_def)
  next
    case 3
    then have x: "x < 0" using assms by simp
    have "round_mag \<bar>y\<bar> \<le> round_mag \<bar>x\<bar>"
      using 3 x assms by (intro round_mag_mono) simp_all
    then show ?thesis
      using 3 x by (simp add: rnd_def Let_def)
  qed
qed

lemma rnd_between:
  assumes lo: "is_double lo" and hi: "is_double hi" and "lo \<le> x" "x \<le> hi"
  shows "\<exists>v. rnd x = DVal v \<and> lo \<le> v \<and> v \<le> hi"
proof -
  have "fge (rnd x) (DVal lo)" "fge (DVal hi) (rnd x)"
    using rnd_mono [OF assms(3)] rnd_mono [OF assms(4)] rnd_exact [OF lo] rnd_exact [OF hi]
    by simp_all
  then show ?thesis
    by (cases "rnd x") simp_all
qed

lemma is_double_int:
  assumes "\<bar>n\<bar> \<le> 2 ^ 53"
  shows "is_double (of_int n)"
proof (cases "\<bar>n\<bar> < 2 ^ 53")
  case True
  have "of_int n = of_int n * pow2 0" by (simp add: pow2_def)
  with True show ?thesis unfolding is_double_def by (intro exI [of _ n] exI [of _ 0]) simp
next
  case False
  then have "\<bar>n\<bar> = 2 ^ 53" using assms by simp
  then consider "n = 2 ^ 53" | "n = - (2 ^ 53)" by linarith
  then show ?thesis
  proof cases
    case 1
    have "(of_int n :: rat) = of_int (2 ^ 52) * pow2 1" by (simp add: 1 pow2_def)
    then show ?thesis unfolding is_double_def
      by (intro exI [of _ "2 ^ 52"] exI [of _ 1]) simp
  next
    case 2
    have "(of_int n :: rat) = of_int (- (2 ^ 52)) * pow2 1" by (simp add: 2 pow2_def)
    then show ?thesis unfolding is_double_def
      by (intro exI [of _ "- (2 ^ 52)"] exI [of _ 1]) simp
  qed
qed

lemma u64_val_nonneg [simp]: "0 \<le> u64_val w"
  by (simp add: u64_val_def del: of_int_uint)

lemma u64_val_le: "u64_val w \<le> 2 ^ 64"
proof -
  have "uint w < 2 ^ 64" using uint_bounded [of w] by simp
  then have "uint w \<le> 2 ^ 64" by simp
  then have "(of_int (uint w) :: rat) \<le> of_int (2 ^ 64)" by (simp only: of_int_le_iff)
  then show ?thesis by (simp add: u64_val_def del: of_int_uint)
qed

lemma u64_val_eq_0 [simp]: "u64_val w = 0 \<longleftrightarrow> w = 0"
  by (simp add: u64_val_def uint_0_iff del: of_int_uint)

lemma floor_u64_val [simp]: "\<lfloor>u64_val w\<rfloor> = uint w"
  by (simp add: u64_val_def del: of_int_uint)

lemma u64_val_ge_1: "w \<noteq> 0 \<Longrightarrow> 1 \<le> u64_val w"
proof -
  assume "w \<noteq> 0"
  then have "uint w \<noteq> 0" by (simp add: uint_0_iff)
  then have "1 \<le> uint w" using uint_ge_0 [of w] by linarith
  then have "(of_int 1 :: rat) \<le> of_int (uint w)" by (simp only: of_int_le_iff)
  then show ?thesis by (simp add: u64_val_def del: of_int_uint)
qed


lemma is_double_u64_val: "uint w \<le> 2 ^ 53 \<Longrightarrow> is_double (u64_val w)"
proof -
  assume "uint w \<le> 2 ^ 53"
  then have "\<bar>uint w\<bar> \<le> 2 ^ 53" by simp
  then show ?thesis unfolding u64_val_def by (rule is_double_int)
qed

lemma u64_to_double_exact:
  "uint w \<le> 2 ^ 53 \<Longrightarrow> u64_to_double w = DVal (u64_val w)"
  unfolding u64_to_double_def by (rule rnd_exact) (rule is_double_u64_val)




lemma is_double_0 [simp]: "is_double 0"
  using is_double_int [of 0] by simp

lemma is_double_1 [simp]: "is_double 1"
  using is_double_int [of 1] by simp

lemma is_double_2_64: "is_double (2 ^ 64)"
proof -
  have "(2 ^ 64 :: rat) = of_int 1 * pow2 64" by (simp add: pow2_def)
  then show ?thesis unfolding is_double_def
    by (intro exI [of _ 1] exI [of _ 64]) simp
qed

lemma is_double_2_71: "is_double (2 ^ 71)"
proof -
  have "(2 ^ 71 :: rat) = of_int 1 * pow2 71" by (simp add: pow2_def)
  then show ?thesis unfolding is_double_def
    by (intro exI [of _ 1] exI [of _ 71]) simp
qed

lemma u64_to_double_finite:
  "\<exists>a. u64_to_double w = DVal a \<and> 0 \<le> a \<and> a \<le> 2 ^ 64"
  unfolding u64_to_double_def
  using rnd_between [OF is_double_0 is_double_2_64 u64_val_nonneg u64_val_le] by blast

lemma u64_to_double_ge_1:
  assumes "w \<noteq> 0"
  shows "\<exists>b. u64_to_double w = DVal b \<and> 1 \<le> b"
  unfolding u64_to_double_def
  using rnd_between [OF is_double_1 is_double_2_64 u64_val_ge_1 [OF assms] u64_val_le] by blast

section \<open>Evaluating the sample data\<close>

lemma rnd_1_02: "rnd (51 / 50) = DVal (2296835809958953 / 2251799813685248)"
  by code_simp

lemma rnd_1_01: "rnd (101 / 100) = DVal (4548635623644201 / 4503599627370496)"
  by code_simp

lemma rnd_millionth: "rnd (1 / 1000000) = DVal (4722366482869645 / 4722366482869645213696)"
  by code_simp

lemma rnd_1000000: "rnd 1000000 = DVal 1000000"
  by code_simp

lemma rnd_1010000: "rnd 1010000 = DVal 1010000"
  by code_simp

lemma rnd_1020000: "rnd 1020000 = DVal 1020000"
  by code_simp

lemma sample_not_met: "\<not> isPriceMet (sample_order tif) 1010000"
  by (simp add: isPriceMet_def sample_order_def u64_to_double_def u64_val_def rnd_1000000 rnd_1010000 rnd_1_01 rnd_1_02)

lemma sample_met: "isPriceMet (sample_order tif) 1020000"
  by (simp add: isPriceMet_def sample_order_def u64_to_double_def u64_val_def rnd_1000000 rnd_1020000 rnd_1_02)

lemma u64_val_numeral_facts:
  "u64_val 1 = 1" "u64_val 3 = 3" "u64_val 10 = 10"
  "u64_val 1000000 = 1000000" "u64_val 1000001 = 1000001" "u64_val 1020000 = 1020000" "u64_val 1500000 = 1500000"
  "u64_val 9007199254740993 = 9007199254740993"
  "u64_val 9007199254740995 = 9007199254740995"
  "u64_val 27021597764222985 = 27021597764222985"
  by (simp_all add: u64_val_def)


lemma rnd_2_53_3: "rnd 9007199254740995 = DVal 9007199254740996"
  by code_simp

lemma rnd_3_2_53_9: "rnd 27021597764222985 = DVal 27021597764222984"
  by code_simp

lemma rnd_below_3: "rnd (6755399441055746 / 2251799813685249) = DVal (6755399441055743 / 2251799813685248)"
  by code_simp

lemma rnd_1_10: "rnd (1 / 10) = DVal (3602879701896397 / 36028797018963968)"
  by code_simp


lemma rnd_small_ints: "rnd 1 = DVal 1" "rnd 3 = DVal 3" "rnd 10 = DVal 10"
  by code_simp+






lemma is_double_half_facts:
  "is_double (1 / 2)" "is_double (3 / 2)" "is_double (1000001 / 2)"
proof -
  have "(1 / 2 :: rat) = of_int 1 * pow2 (- 1)" "(3 / 2 :: rat) = of_int 3 * pow2 (- 1)"
    "(1000001 / 2 :: rat) = of_int 1000001 * pow2 (- 1)"
    by (simp_all add: pow2_def)
  then show "is_double (1 / 2)" "is_double (3 / 2)" "is_double (1000001 / 2)"
    unfolding is_double_def
    by (intro exI [of _ 1] exI [of _ 3] exI [of _ 1000001] exI [of _ "- 1"]; simp)+
qed


section \<open>The fill evaluator and the order's own operations\<close>

lemma isPriceMet_recordPriceCheck [simp]:
  "isPriceMet (recordPriceCheck t ord q') q = isPriceMet ord q"
  by (simp add: isPriceMet_def recordPriceCheck_def)

lemma status_updateStatus [simp]: "status (updateStatus ord s r) = s"
  by (simp add: updateStatus_def Let_def)

lemma getMaxFillable_not_met: "\<not> isPriceMet ord q \<Longrightarrow> getMaxFillableAmount ord q = 0"
  by (simp add: getMaxFillableAmount_def Let_def)

text \<open>
  Claim C1. When \<open>isPriceMet\<close> is false, \<open>getMaxFillableAmount\<close> is 0; so the
  partial-fill branch of \<open>executeIOC\<close>, which is entered only when \<open>isPriceMet\<close> is
  false and \<open>getMaxFillableAmount\<close> is positive, is never taken: whatever the quotes,
  the settlement and the clock do, \<open>executeIOC\<close> leaves the order \<open>FILLED\<close>,
  \<open>CANCELED\<close> or \<open>FAILED\<close>, never \<open>PARTIALLY_FILLED\<close>.
\<close>

theorem ioc_partial_fill_unreachable:
  "(\<not> isPriceMet ord q \<longrightarrow> getMaxFillableAmount ord q = 0) \<and>
   status (snd (executeIOC ev w ord)) \<in> {FILLED, CANCELED, FAILED}"
proof
  show "\<not> isPriceMet ord q \<longrightarrow> getMaxFillableAmount ord q = 0"
    by (simp add: getMaxFillable_not_met)
next
  show "status (snd (executeIOC ev w ord)) \<in> {FILLED, CANCELED, FAILED}"
    by (simp add: executeIOC_def recordQuote_def getMaxFillable_not_met Let_def
             split: prod.split sum.split)
qed

theorem ioc_partial_fill_unreachable_witness:
  "\<not> isPriceMet (sample_order IOC) 1010000 \<and>
   getMaxFillableAmount (sample_order IOC) 1010000 = 0 \<and>
   status (snd (executeIOC (quote_env 1010000) start_world (sample_order IOC))) \<noteq> PARTIALLY_FILLED"
  using ioc_partial_fill_unreachable [of "sample_order IOC" 1010000 "quote_env 1010000" start_world]
        sample_not_met [of IOC]
  by auto

text \<open>
  Claim C5, as the code has it. \<open>isPriceMet\<close> is false when the input amount is 0.
  Otherwise it compares a rounded quotient with the limit price: for a quote and an input
  amount up to \<open>2^53\<close> (which convert to \<open>double\<close> unchanged) it is true exactly when
  the double nearest to the exact quotient is at least the limit price. So, for such
  amounts: if the exact quotient is at least \<open>l\<close> and the limit price is the double
  nearest to \<open>l\<close> (so also when it is \<open>l\<close> itself), the price is met: the limit is
  inclusive; and when the exact quotient is itself a double, the price is met exactly when
  the quotient is at least the limit.
\<close>

theorem isPriceMet_rounded_quotient:
  "(input_amount ord = 0 \<longrightarrow> \<not> isPriceMet ord q) \<and>
   (input_amount ord \<noteq> 0 \<and> uint q \<le> 2 ^ 53 \<and> uint (input_amount ord) \<le> 2 ^ 53
      \<longrightarrow> (isPriceMet ord q \<longleftrightarrow>
             fge (rnd (u64_val q / u64_val (input_amount ord))) (limit_price ord))) \<and>
   (input_amount ord \<noteq> 0 \<and> uint q \<le> 2 ^ 53 \<and> uint (input_amount ord) \<le> 2 ^ 53 \<and>
      limit_price ord = rnd l \<and> l \<le> u64_val q / u64_val (input_amount ord)
      \<longrightarrow> isPriceMet ord q) \<and>
   (input_amount ord \<noteq> 0 \<and> uint q \<le> 2 ^ 53 \<and> uint (input_amount ord) \<le> 2 ^ 53 \<and>
      limit_price ord = DVal l' \<and> is_double (u64_val q / u64_val (input_amount ord))
      \<longrightarrow> (isPriceMet ord q \<longleftrightarrow> l' \<le> u64_val q / u64_val (input_amount ord)))"
proof (intro conjI impI)
  assume "input_amount ord = 0"
  then show "\<not> isPriceMet ord q" by (simp add: isPriceMet_def)
next
  assume h: "input_amount ord \<noteq> 0 \<and> uint q \<le> 2 ^ 53 \<and> uint (input_amount ord) \<le> 2 ^ 53"
  then show "isPriceMet ord q \<longleftrightarrow>
               fge (rnd (u64_val q / u64_val (input_amount ord))) (limit_price ord)"
    by (simp add: isPriceMet_def u64_to_double_exact)
next
  assume h: "input_amount ord \<noteq> 0 \<and> uint q \<le> 2 ^ 53 \<and> uint (input_amount ord) \<le> 2 ^ 53 \<and>
      limit_price ord = rnd l \<and> l \<le> u64_val q / u64_val (input_amount ord)"
  have "fge (rnd (u64_val q / u64_val (input_amount ord))) (rnd l)"
    using h by (intro rnd_mono) simp
  then show "isPriceMet ord q"
    using h by (simp add: isPriceMet_def u64_to_double_exact)
next
  assume h: "input_amount ord \<noteq> 0 \<and> uint q \<le> 2 ^ 53 \<and> uint (input_amount ord) \<le> 2 ^ 53 \<and>
      limit_price ord = DVal l' \<and> is_double (u64_val q / u64_val (input_amount ord))"
  have "rnd (u64_val q / u64_val (input_amount ord)) = DVal (u64_val q / u64_val (input_amount ord))"
    using h by (intro rnd_exact) simp
  then show "isPriceMet ord q \<longleftrightarrow> l' \<le> u64_val q / u64_val (input_amount ord)"
    using h by (simp add: isPriceMet_def u64_to_double_exact)
qed

theorem isPriceMet_rounded_quotient_witness:
  "\<not> isPriceMet ((sample_order GTC)\<lparr>input_amount := 0\<rparr>) 1020000 \<and>
   uint (1 :: 64 word) \<le> 2 ^ 53 \<and> uint (input_amount (sample_order GTC)) \<le> 2 ^ 53 \<and>
   \<not> fge (rnd (u64_val 1 / u64_val (input_amount (sample_order GTC)))) (limit_price (sample_order GTC)) \<and>
   \<not> isPriceMet (sample_order GTC) 1 \<and>
   51 / 50 \<le> u64_val 1020000 / u64_val (input_amount (sample_order GTC)) \<and>
   isPriceMet (sample_order GTC) 1020000 \<and>
   is_double (u64_val 1500000 / u64_val (input_amount (sample_order GTC))) \<and>
   isPriceMet (sample_order GTC) 1500000"
proof -
  note t = isPriceMet_rounded_quotient
  have f: "input_amount (sample_order GTC) = 1000000"
    "limit_price (sample_order GTC) = rnd (51 / 50)"
    "limit_price (sample_order GTC) = DVal (2296835809958953 / 2251799813685248)"
    by (simp_all add: sample_order_def rnd_1_02)
  have a: "\<not> isPriceMet ((sample_order GTC)\<lparr>input_amount := 0\<rparr>) 1020000"
    using t [of "(sample_order GTC)\<lparr>input_amount := 0\<rparr>" 1020000, THEN conjunct1] by simp
  have b0: "\<not> fge (rnd (u64_val 1 / u64_val (input_amount (sample_order GTC))))
              (limit_price (sample_order GTC))"
    by (simp add: f(1,3) u64_val_numeral_facts rnd_millionth)
  have b: "\<not> isPriceMet (sample_order GTC) 1"
    using t [of "sample_order GTC" 1, THEN conjunct2, THEN conjunct1] b0 by (simp add: f(1))
  have c0: "51 / 50 \<le> u64_val 1020000 / u64_val (input_amount (sample_order GTC))"
    by (simp add: f(1) u64_val_numeral_facts)
  have c: "isPriceMet (sample_order GTC) 1020000"
    using t [of "sample_order GTC" 1020000 "51 / 50", THEN conjunct2, THEN conjunct2, THEN conjunct1]
      c0 f(2) by (simp add: f(1))
  have d0: "is_double (u64_val 1500000 / u64_val (input_amount (sample_order GTC)))"
    by (simp add: f(1) u64_val_numeral_facts is_double_half_facts)
  have d: "isPriceMet (sample_order GTC) 1500000"
    using t [of "sample_order GTC" 1500000 _ "2296835809958953 / 2251799813685248",
        THEN conjunct2, THEN conjunct2, THEN conjunct2] d0 f(3)
    by (simp add: f(1) u64_val_numeral_facts)
  show ?thesis
    using a b0 b c0 c d0 d by (simp add: f(1))
qed

text \<open>
  Claim C5 as stated fails. With the input amount \<open>2^53 + 3\<close> and the limit price 3,
  the quote of exactly three times the input amount does not meet the price: both amounts
  are rounded on conversion and the quotient falls below 3. And with the input amount 10
  and the limit price the double nearest to 0.1, a quote of 1 meets the price although
  1/10 is below that double.
\<close>

theorem isPriceMet_boundary_counterexample:
  "uint (27021597764222985 :: 64 word) = uint (9007199254740995 :: 64 word) * 3 \<and>
   \<not> isPriceMet ((sample_order GTC)\<lparr>input_amount := 9007199254740995, limit_price := DVal 3\<rparr>)
        27021597764222985 \<and>
   isPriceMet ((sample_order GTC)\<lparr>input_amount := 10,
        limit_price := DVal (3602879701896397 / 36028797018963968)\<rparr>) 1 \<and>
   u64_val 1 / u64_val 10 < 3602879701896397 / 36028797018963968"
  by (simp add: isPriceMet_def u64_to_double_def u64_val_numeral_facts rnd_2_53_3 rnd_3_2_53_9
        rnd_below_3 rnd_1_10 rnd_small_ints)




text \<open>
  Claim C9. \<open>getFillPercentage\<close> returns 0.0 for every order whose input amount is 0,
  and in every state of the order it returns a number that is not negative (never an
  infinity, never "not a number"): the division is behind the test of the input amount.
\<close>

theorem getFillPercentage_total:
  "(input_amount ord = 0 \<longrightarrow> getFillPercentage ord = DVal 0) \<and>
   (\<exists>v. getFillPercentage ord = DVal v \<and> 0 \<le> v)"
proof (cases "input_amount ord = 0")
  case True
  then show ?thesis by (simp add: getFillPercentage_def)
next
  case False
  obtain a where a: "u64_to_double (filled_amount ord) = DVal a" "0 \<le> a" "a \<le> 2 ^ 64"
    using u64_to_double_finite by blast
  obtain b where b: "u64_to_double (input_amount ord) = DVal b" "1 \<le> b"
    using u64_to_double_ge_1 [OF False] by blast
  have q0: "0 \<le> a / b" using a(2) b(2) by simp
  have "a / b \<le> a / 1" using a(2) b(2) by (intro divide_left_mono) simp_all
  then have q1: "a / b \<le> 2 ^ 64" using a(3) by simp
  obtain c where c: "rnd (a / b) = DVal c" "0 \<le> c" "c \<le> 2 ^ 64"
    using rnd_between [OF is_double_0 is_double_2_64 q0 q1] by blast
  have p0: "0 \<le> c * 100" using c(2) by simp
  have "c * 100 \<le> 2 ^ 64 * 100" using c(3) by simp
  also have "\<dots> \<le> (2 ^ 71 :: rat)" by simp
  finally have p1: "c * 100 \<le> 2 ^ 71" .
  obtain v where v: "rnd (c * 100) = DVal v" "0 \<le> v"
    using rnd_between [OF is_double_0 is_double_2_71 p0 p1] by blast
  have "getFillPercentage ord = DVal v"
    using False a(1) b c(1) v(1) by (simp add: getFillPercentage_def)
  then show ?thesis using False v(2) by simp
qed

theorem getFillPercentage_total_witness:
  "input_amount ((sample_order GTC)\<lparr>input_amount := 0\<rparr>) = 0 \<and>
   getFillPercentage ((sample_order GTC)\<lparr>input_amount := 0\<rparr>) = DVal 0"
  using getFillPercentage_total [of "(sample_order GTC)\<lparr>input_amount := 0\<rparr>"]
  by simp

text \<open>
  Claim C10. \<open>updateStatus\<close> with an empty reason leaves \<open>failure_reason\<close> as it
  was, and every call leaves all fields other than \<open>status\<close> and \<open>failure_reason\<close>
  as they were: putting the two old values back gives the old order.
\<close>

theorem updateStatus_frame:
  "failure_reason (updateStatus ord s []) = failure_reason ord \<and>
   (updateStatus ord s r)\<lparr>status := status ord, failure_reason := failure_reason ord\<rparr> = ord"
  by (simp add: updateStatus_def Let_def)

section \<open>Admission and dispatch\<close>

text \<open>
  Claim C2, as the code has it. \<open>addOrder\<close> checks nothing: every order, malformed or
  not, gets the status \<open>ACTIVE\<close> and is appended to the engine's orders, all its other
  fields unchanged.
\<close>

theorem addOrder_admits_everything:
  "active_orders (addOrder eng ord) = active_orders eng @ [ord\<lparr>status := ACTIVE\<rparr>]"
  by (simp add: addOrder_def updateStatus_def Let_def)

text \<open>
  Claim C2 as stated fails: an order with input amount 0 and slippage tolerance -1 is
  admitted and enqueued like any other.
\<close>

theorem addOrder_malformed_counterexample:
  "active_orders (addOrder \<lparr>active_orders = []\<rparr>
      ((sample_order GTC)\<lparr>input_amount := 0, slippage_tolerance := DVal (- 1), status := PENDING\<rparr>))
   = [(sample_order GTC)\<lparr>input_amount := 0, slippage_tolerance := DVal (- 1), status := ACTIVE\<rparr>]"
  by (simp add: addOrder_def updateStatus_def Let_def)

text \<open>
  Claim C3 as stated fails: \<open>updateStatus\<close> sets whatever status it is given, so it
  takes a \<open>FILLED\<close> order back to \<open>ACTIVE\<close>.
\<close>

theorem updateStatus_leaves_terminal_counterexample:
  "terminal (status ((sample_order GTC)\<lparr>status := FILLED\<rparr>)) \<and>
   status (updateStatus ((sample_order GTC)\<lparr>status := FILLED\<rparr>) ACTIVE []) = ACTIVE"
  by (simp add: terminal_def)

lemma status_recordPriceCheck: "status (recordPriceCheck t ord q) = status ord"
  by (simp add: recordPriceCheck_def)

lemma processOrder_inactive:
  "status ord \<noteq> ACTIVE \<Longrightarrow> processOrder fuel ev w ord = Some (w\<lparr>tick := Suc (tick w)\<rparr>, ord)"
  by (simp add: processOrder_def clock_now_def isExecutable_def)

lemma processList_inactive:
  "\<forall>ord \<in> set os. status ord \<noteq> ACTIVE \<Longrightarrow>
     processList fuel ev w os = Some (w\<lparr>tick := tick w + length os\<rparr>, os)"
proof (induction os arbitrary: w)
  case Nil
  then show ?case by simp
next
  case (Cons ord rest)
  then show ?case
    by (simp add: processOrder_inactive)
qed

lemma executeGTC_loop_status:
  "executeGTC_loop fuel ev w ord n = Some (w', ord') \<Longrightarrow>
     status ord' = status ord \<or> terminal (status ord')"
proof (induction fuel arbitrary: w ord n)
  case 0
  then show ?case by simp
next
  case (Suc fuel)
  then show ?case
    by (fastforce simp add: clock_now_def get_dy_def executeSwap_def recordQuote_def terminal_def
          status_recordPriceCheck Let_def
        split: if_splits sum.splits prod.splits)
qed

lemma executeGTT_loop_status:
  "executeGTT_loop fuel ev w ord = Some (w', ord') \<Longrightarrow>
     status ord' = status ord \<or> terminal (status ord')"
proof (induction fuel arbitrary: w ord)
  case 0
  then show ?case by simp
next
  case (Suc fuel)
  then show ?case
    by (fastforce simp add: clock_now_def get_dy_def executeSwap_def recordQuote_def terminal_def
          status_recordPriceCheck Let_def
        split: if_splits sum.splits prod.splits)
qed

lemma executeIOC_terminal: "terminal (status (snd (executeIOC ev w ord)))"
  by (simp add: executeIOC_def recordQuote_def terminal_def status_recordPriceCheck Let_def
      split: prod.split sum.split)

lemma fok_fill_terminal: "terminal (status (snd (fok_fill ev w ord q)))"
  by (simp add: fok_fill_def terminal_def Let_def split: prod.split sum.split)

lemma executeFOK_terminal: "terminal (status (snd (executeFOK ev w ord)))"
  using fok_fill_terminal
  by (simp add: executeFOK_def recordQuote_def status_recordPriceCheck Let_def
      split: prod.split sum.split)
     (simp add: terminal_def)

lemma processOrder_step:
  assumes "processOrder fuel ev w ord = Some (w', ord')"
  shows "(status ord \<noteq> ACTIVE \<longrightarrow> ord' = ord) \<and>
         (status ord' \<noteq> status ord \<longrightarrow> status ord = ACTIVE \<and> terminal (status ord'))"
proof (cases "status ord = ACTIVE")
  case False
  then show ?thesis using assms by (simp add: processOrder_inactive)
next
  case True
  have "status ord' = status ord \<or> terminal (status ord')"
  proof (cases "isExecutable (now_oracle ev (tick w)) ord")
    case False
    then show ?thesis using assms by (simp add: processOrder_def clock_now_def)
  next
    case ex: True
    show ?thesis
    proof (cases "tif_policy ord")
      case GTC
      then show ?thesis
        using assms ex executeGTC_loop_status
        by (simp add: processOrder_def clock_now_def executeGTC_def)
    next
      case GTT
      then show ?thesis
        using assms ex executeGTT_loop_status
        by (simp add: processOrder_def clock_now_def executeGTT_def)
    next
      case IOC
      then show ?thesis
        using assms ex executeIOC_terminal [of ev "w\<lparr>tick := Suc (tick w)\<rparr>" ord]
        by (auto simp add: processOrder_def clock_now_def)
    next
      case FOK
      then show ?thesis
        using assms ex executeFOK_terminal [of ev "w\<lparr>tick := Suc (tick w)\<rparr>" ord]
        by (auto simp add: processOrder_def clock_now_def)
    qed
  qed
  then show ?thesis using True by auto
qed

lemma processList_step:
  "processList fuel ev w os = Some (w', os') \<Longrightarrow>
     list_all2 (\<lambda>ord ord'. (status ord \<noteq> ACTIVE \<longrightarrow> ord' = ord) \<and>
                  (status ord' \<noteq> status ord \<longrightarrow> status ord = ACTIVE \<and> terminal (status ord')))
       os os'"
proof (induction os arbitrary: w w' os')
  case Nil
  then show ?case by simp
next
  case (Cons ord rest)
  from Cons.prems obtain w1 ord1 rest1 where
    s: "processOrder fuel ev w ord = Some (w1, ord1)"
       "processList fuel ev w1 rest = Some (w', rest1)" "os' = ord1 # rest1"
    by (auto split: option.splits prod.splits)
  show ?case
    using processOrder_step [OF s(1)] Cons.IH [OF s(2)] s(3) by simp
qed

text \<open>
  Claim C3, as the code has it. The guard is in the dispatch. A run of \<open>processOrders\<close>
  over orders none of which is \<open>ACTIVE\<close> returns (whatever the fuel) and leaves the
  engine exactly as it was; and in every run that returns, each order that was not
  \<open>ACTIVE\<close> (so each order in a terminal status) comes out exactly as it went in, and a
  status changes only from \<open>ACTIVE\<close> and only to a terminal status: the transitions of
  the dispatch are monotonic toward a terminal status, and none leaves one.
\<close>

theorem processOrders_lifecycle:
  "((\<forall>ord \<in> set (active_orders eng). status ord \<noteq> ACTIVE) \<longrightarrow>
      processOrders fuel ev w eng = Some (w\<lparr>tick := tick w + length (active_orders eng)\<rparr>, eng)) \<and>
   (processOrders fuel ev w eng = Some (w', eng') \<longrightarrow>
      list_all2 (\<lambda>ord ord'. (status ord \<noteq> ACTIVE \<longrightarrow> ord' = ord) \<and>
                   (status ord' \<noteq> status ord \<longrightarrow> status ord = ACTIVE \<and> terminal (status ord')))
        (active_orders eng) (active_orders eng'))"
proof (intro conjI impI)
  assume "\<forall>ord \<in> set (active_orders eng). status ord \<noteq> ACTIVE"
  then show "processOrders fuel ev w eng = Some (w\<lparr>tick := tick w + length (active_orders eng)\<rparr>, eng)"
    by (simp add: processOrders_def processList_inactive)
next
  assume "processOrders fuel ev w eng = Some (w', eng')"
  then obtain os' where "processList fuel ev w (active_orders eng) = Some (w', os')"
    "active_orders eng' = os'"
    by (auto simp add: processOrders_def split: option.splits prod.splits)
  then show "list_all2 (\<lambda>ord ord'. (status ord \<noteq> ACTIVE \<longrightarrow> ord' = ord) \<and>
                   (status ord' \<noteq> status ord \<longrightarrow> status ord = ACTIVE \<and> terminal (status ord')))
        (active_orders eng) (active_orders eng')"
    using processList_step by simp
qed

theorem processOrders_lifecycle_witness:
  "status ((sample_order GTC)\<lparr>status := FILLED\<rparr>) \<noteq> ACTIVE \<and>
   status ((sample_order IOC)\<lparr>status := PENDING\<rparr>) \<noteq> ACTIVE \<and>
   processOrders 3 (quote_env 1010000) start_world
     \<lparr>active_orders = [(sample_order GTC)\<lparr>status := FILLED\<rparr>, (sample_order IOC)\<lparr>status := PENDING\<rparr>]\<rparr>
     = Some (start_world\<lparr>tick := 2\<rparr>,
         \<lparr>active_orders = [(sample_order GTC)\<lparr>status := FILLED\<rparr>, (sample_order IOC)\<lparr>status := PENDING\<rparr>]\<rparr>) \<and>
   map_option (\<lambda>(w, eng). map status (active_orders eng))
     (processOrders 3 (quote_env 1010000) start_world
        \<lparr>active_orders = [(sample_order FOK)\<lparr>status := FILLED\<rparr>, sample_order IOC]\<rparr>)
     = Some [FILLED, CANCELED]"
proof -
  have live: "isExecutable 0 (sample_order IOC)"
    by (simp add: isExecutable_def isExpired_def sample_order_def)
  have ioc: "status (snd (executeIOC (quote_env 1010000) w (sample_order IOC))) = CANCELED" for w
    using sample_not_met [of IOC]
    by (simp add: executeIOC_def get_dy_def recordQuote_def clock_now_def quote_env_def
          getMaxFillable_not_met)
  have flds: "status (sample_order IOC) = ACTIVE" "tif_policy (sample_order IOC) = IOC"
    "status (sample_order FOK) = ACTIVE"
    by (simp_all add: sample_order_def)
  have run: "map_option (\<lambda>(w, eng). map status (active_orders eng))
     (processOrders 3 (quote_env 1010000) start_world
        \<lparr>active_orders = [(sample_order FOK)\<lparr>status := FILLED\<rparr>, sample_order IOC]\<rparr>)
     = Some [FILLED, CANCELED]"
    using live ioc
    by (simp add: processOrders_def processOrder_def clock_now_def case_prod_beta flds
          isExecutable_def [of _ "(sample_order FOK)\<lparr>status := FILLED\<rparr>"] quote_env_def)
  show ?thesis
    using processOrders_lifecycle [of "\<lparr>active_orders = [(sample_order GTC)\<lparr>status := FILLED\<rparr>,
              (sample_order IOC)\<lparr>status := PENDING\<rparr>]\<rparr>" 3 "quote_env 1010000" start_world]
      run
    by (simp add: start_world_def)
qed

section \<open>The strategies\<close>

lemma killed_mentioned: "sublist ''killed'' ''FOK: Price not met, order killed''"
proof -
  have "''FOK: Price not met, order killed'' = ''FOK: Price not met, order '' @ ''killed'' @ []"
    by simp
  then show ?thesis
    unfolding sublist_def by blast
qed

text \<open>
  Claim C8. A FOK order whose first quote does not meet the limit price ends
  \<open>CANCELED\<close>, with the reason "FOK: Price not met, order killed" (which mentions
  "killed"); its filled amount stays 0 and no settlement is submitted.
\<close>

theorem fok_price_not_met_killed:
  assumes quote: "get_dy_oracle ev (tick w) (pool_address ord) (input_token_index ord)
                    (output_token_index ord) (input_amount ord) = Inr q"
    and not_met: "\<not> isPriceMet ord q"
    and fresh: "filled_amount ord = 0"
  shows "status (snd (executeFOK ev w ord)) = CANCELED \<and>
         failure_reason (snd (executeFOK ev w ord)) = ''FOK: Price not met, order killed'' \<and>
         sublist ''killed'' (failure_reason (snd (executeFOK ev w ord))) \<and>
         filled_amount (snd (executeFOK ev w ord)) = 0 \<and>
         swaps (fst (executeFOK ev w ord)) = swaps w"
proof -
  have "executeFOK ev w ord =
          (w\<lparr>tick := Suc (Suc (tick w))\<rparr>,
           updateStatus (recordPriceCheck (now_oracle ev (Suc (tick w))) ord q) CANCELED
             ''FOK: Price not met, order killed'')"
    using quote not_met
    by (simp add: executeFOK_def get_dy_def recordQuote_def clock_now_def)
  then show ?thesis
    using fresh killed_mentioned
    by (simp add: updateStatus_def recordPriceCheck_def Let_def)
qed

theorem fok_price_not_met_killed_witness:
  "get_dy_oracle (quote_env 1010000) (tick start_world) (pool_address (sample_order FOK))
     (input_token_index (sample_order FOK)) (output_token_index (sample_order FOK))
     (input_amount (sample_order FOK)) = Inr 1010000 \<and>
   \<not> isPriceMet (sample_order FOK) 1010000 \<and>
   filled_amount (sample_order FOK) = 0 \<and>
   status (snd (executeFOK (quote_env 1010000) start_world (sample_order FOK))) = CANCELED \<and>
   swaps (fst (executeFOK (quote_env 1010000) start_world (sample_order FOK))) = []"
proof -
  have q: "get_dy_oracle (quote_env 1010000) (tick start_world) (pool_address (sample_order FOK))
     (input_token_index (sample_order FOK)) (output_token_index (sample_order FOK))
     (input_amount (sample_order FOK)) = Inr 1010000"
    by (simp add: quote_env_def)
  have f: "filled_amount (sample_order FOK) = 0"
    by (simp add: sample_order_def)
  show ?thesis
    using fok_price_not_met_killed [OF q sample_not_met f] q sample_not_met [of FOK] f
    by (simp add: start_world_def)
qed

lemma executeGTT_loop_received_amount:
  "executeGTT_loop fuel ev w ord = Some (w', ord') \<Longrightarrow> received_amount ord' = received_amount ord"
proof (induction fuel arbitrary: w ord)
  case 0
  then show ?case by simp
next
  case (Suc fuel)
  then show ?case
    by (auto simp add: clock_now_def get_dy_def executeSwap_def recordQuote_def sleep_for_def
          recordPriceCheck_def updateStatus_def Let_def
        split: if_splits sum.splits prod.splits)
qed

text \<open>
  Claim C4 says that the success exit of GTT is that of GTC. On the same quote of
  1020000 for the same order, \<open>executeGTC\<close> stores the quoted output in
  \<open>received_amount\<close> and \<open>executeGTT\<close> leaves it at 0, as
  \<open>executeGTT_loop_received_amount\<close> shows it does on every run.
\<close>

theorem gtt_fill_omits_received_amount:
  "map_option (\<lambda>(w, ord). (status ord, filled_amount ord, received_amount ord))
     (executeGTT (Suc n) (quote_env 1020000) start_world (sample_order GTT))
     = Some (FILLED, 1000000, 0) \<and>
   map_option (\<lambda>(w, ord). (status ord, filled_amount ord, received_amount ord))
     (executeGTC (Suc n) (quote_env 1020000) start_world (sample_order GTC))
     = Some (FILLED, 1000000, 1020000)"
proof
  have live: "isExecutable 0 (sample_order GTT)" "\<not> isExpired 0 (sample_order GTT)"
    by (simp_all add: isExecutable_def isExpired_def sample_order_def hours_def)
  show "map_option (\<lambda>(w, ord). (status ord, filled_amount ord, received_amount ord))
     (executeGTT (Suc n) (quote_env 1020000) start_world (sample_order GTT))
     = Some (FILLED, 1000000, 0)"
    using live sample_met [of GTT]
    by (simp add: executeGTT_def clock_now_def get_dy_def executeSwap_def recordQuote_def
          quote_env_def updateStatus_def Let_def)
       (simp add: sample_order_def recordPriceCheck_def)
next
  have live: "isExecutable 0 (sample_order GTC)"
    by (simp add: isExecutable_def isExpired_def sample_order_def)
  show "map_option (\<lambda>(w, ord). (status ord, filled_amount ord, received_amount ord))
     (executeGTC (Suc n) (quote_env 1020000) start_world (sample_order GTC))
     = Some (FILLED, 1000000, 1020000)"
    using live sample_met [of GTC]
    by (simp add: executeGTC_def clock_now_def get_dy_def executeSwap_def recordQuote_def
          quote_env_def updateStatus_def Let_def)
       (simp add: sample_order_def recordPriceCheck_def)
qed

section \<open>The minimum output of an order\<close>

lemma updateStatus_min_output [simp]:
  "min_output_amount (updateStatus ord s reason) = min_output_amount ord"
  by (simp add: updateStatus_def Let_def)

lemma recordPriceCheck_min_output [simp]:
  "min_output_amount (recordPriceCheck t ord q) = min_output_amount ord"
  by (simp add: recordPriceCheck_def)

lemma setExpiryTime_min_output [simp]:
  "min_output_amount (setExpiryTime ord e) = min_output_amount ord"
  by (simp add: setExpiryTime_def)











end
